theory Spec2Isabelle
  imports Main "HOL-Library.Word"
begin

section \<open>Ticket aux data of package pm (auxdata.go)\<close>

text \<open>
  The aux data of a ticket is the last initialized round of the protocol (32 bytes,
  big-endian) followed by the hash of the block in which that round began (32 bytes).
  \<open>Create\<close> builds it from a \<open>RoundsManager\<close>, \<open>Validate\<close> checks a candidate
  against the same \<open>RoundsManager\<close>.
\<close>

subsection \<open>Data\<close>

type_synonym byte = "8 word"

text \<open>Go's \<^verbatim>\<open>[]byte\<close>. Only \<^verbatim>\<open>len\<close>, slicing and comparison are applied to it here,
  so a nil slice and an empty one are both \<open>[]\<close>.\<close>

type_synonym bytes = "byte list"

text \<open>Go's \<^verbatim>\<open>[32]byte\<close>: the array type fixes the length.\<close>

typedef hash32 = "{bs :: byte list. length bs = 32}"
  morphisms slice_of Abs_hash32
  by (rule exI [of _ "replicate 32 0"]) simp

setup_lifting type_definition_hash32

text \<open>The zero value \<^verbatim>\<open>[32]byte{}\<close>.\<close>

lift_definition emptyBlkHash :: hash32 is "replicate 32 0"
  by simp

text \<open>The block hash of the tests, 0x7624778d...291b9c6f.\<close>

lift_definition testBlkHash :: hash32 is
  "[0x76, 0x24, 0x77, 0x8d, 0xed, 0xc7, 0x5f, 0x8b, 0x32, 0x2b, 0x9f, 0xa1, 0x63, 0x2a, 0x61, 0x0d,
    0x40, 0xb8, 0x5e, 0x10, 0x6c, 0x7d, 0x9b, 0xf0, 0xe7, 0x43, 0xa9, 0xce, 0x29, 0x1b, 0x9c, 0x6f]"
  by simp

text \<open>Go's \<^verbatim>\<open>*big.Int\<close>: a pointer to an unbounded signed integer; \<open>None\<close> is the nil
  pointer.\<close>

type_synonym big_Int = int

type_synonym big_Int_ptr = "big_Int option"

text \<open>Go's \<^verbatim>\<open>error\<close>; nil is \<open>None\<close> of \<open>error option\<close>. The three package-level
  errors of auxdata.go are values of their own, every other error is identified by its
  message.\<close>

datatype error =
    errInvalidAuxDataLength
  | errInvalidCreationRound
  | errInvalidCreationRoundBlockHash
  | errors_New string

text \<open>A call either returns or panics (a method of \<^verbatim>\<open>big.Int\<close> applied to the nil
  pointer dereferences it).\<close>

datatype 'a outcome = Returns 'a | Panics

subsection \<open>The library functions used\<close>

text \<open>\<^verbatim>\<open>nat.bytes\<close> of math/big: the big-endian bytes of a natural number, without
  leading zero bytes; zero has no bytes.\<close>

fun nat_bytes :: "nat \<Rightarrow> bytes" where
  "nat_bytes n = (if n = 0 then [] else nat_bytes (n div 256) @ [of_nat (n mod 256)])"

declare nat_bytes.simps [simp del]

text \<open>\<^verbatim>\<open>nat.setBytes\<close> of math/big: the natural number whose big-endian bytes are
  given.\<close>

definition nat_setBytes :: "bytes \<Rightarrow> nat" where
  "nat_setBytes buf = foldl (\<lambda>z b. z * 256 + unat b) 0 buf"

text \<open>\<^verbatim>\<open>(*big.Int).Bytes\<close>: the absolute value of x as a big-endian byte slice.\<close>

definition Int_Bytes :: "big_Int \<Rightarrow> bytes" where
  "Int_Bytes x = nat_bytes (nat \<bar>x\<bar>)"

text \<open>\<^verbatim>\<open>(*big.Int).SetBytes\<close>: buf read as the bytes of a big-endian unsigned
  integer.\<close>

definition Int_SetBytes :: "bytes \<Rightarrow> big_Int" where
  "Int_SetBytes buf = int (nat_setBytes buf)"

text \<open>\<^verbatim>\<open>(*big.Int).Cmp\<close>: -1 if x < y, 0 if x = y, +1 if x > y.\<close>

definition Int_Cmp :: "big_Int \<Rightarrow> big_Int \<Rightarrow> int" where
  "Int_Cmp x y = (if x < y then - 1 else if x = y then 0 else 1)"

text \<open>\<^verbatim>\<open>bytes.Equal\<close>: same length and same bytes.\<close>

definition bytes_Equal :: "bytes \<Rightarrow> bytes \<Rightarrow> bool" where
  "bytes_Equal a b = (a = b)"

text \<open>\<^verbatim>\<open>common.LeftPadBytes\<close> of go-ethereum: the slice itself when it has l bytes
  or more, otherwise l bytes, zero on the left.\<close>

definition LeftPadBytes :: "bytes \<Rightarrow> nat \<Rightarrow> bytes" where
  "LeftPadBytes slice' l =
     (if l \<le> length slice' then slice' else replicate (l - length slice') 0 @ slice')"

subsection \<open>RoundsManager\<close>

text \<open>The interface \<^verbatim>\<open>RoundsManager\<close>. An implementation reads the chain, so each
  method takes the state \<open>'s\<close> of the world and returns the state after the call, beside
  the two results of the Go method. The round is passed to BlockHashForRound by value:
  an implementation is taken not to write through the pointer it receives.\<close>

record 's RoundsManager =
  LastInitializedRound :: "'s \<Rightarrow> (big_Int_ptr \<times> error option) \<times> 's"
  BlockHashForRound :: "big_Int_ptr \<Rightarrow> 's \<Rightarrow> (hash32 \<times> error option) \<times> 's"

subsection \<open>Create and Validate\<close>

definition Create :: "'s RoundsManager \<Rightarrow> 's \<Rightarrow> (bytes option \<times> error option) outcome \<times> 's" where
  "Create c s =
     (case LastInitializedRound c s of ((round, err), s1) \<Rightarrow>
        (case err of
           Some e \<Rightarrow> (Returns (None, Some e), s1)
         | None \<Rightarrow>
            (case BlockHashForRound c round s1 of ((blkHash, err'), s2) \<Rightarrow>
               (case err' of
                  Some e \<Rightarrow> (Returns (None, Some e), s2)
                | None \<Rightarrow>
                   (case round of
                      None \<Rightarrow> (Panics, s2)
                    | Some r \<Rightarrow>
                       (Returns (Some (LeftPadBytes (Int_Bytes r) 32 @ slice_of blkHash), None),
                        s2))))))"

definition Validate :: "'s RoundsManager \<Rightarrow> bytes \<Rightarrow> 's \<Rightarrow> error option outcome \<times> 's" where
  "Validate v auxData s =
     (if length auxData \<noteq> 64 then (Returns (Some errInvalidAuxDataLength), s)
      else
        let creationRound = Int_SetBytes (take 32 auxData);
            creationRoundBlkHash = drop 32 auxData
        in
        (case LastInitializedRound v s of ((round, err), s1) \<Rightarrow>
           (case err of
              Some e \<Rightarrow> (Returns (Some e), s1)
            | None \<Rightarrow>
               (case BlockHashForRound v round s1 of ((blkHash, err'), s2) \<Rightarrow>
                  (case err' of
                     Some e \<Rightarrow> (Returns (Some e), s2)
                   | None \<Rightarrow>
                      (case round of
                         None \<Rightarrow> (Panics, s2)
                       | Some r \<Rightarrow>
                          if Int_Cmp creationRound r \<noteq> 0
                          then (Returns (Some errInvalidCreationRound), s2)
                          else if \<not> bytes_Equal creationRoundBlkHash (slice_of blkHash)
                          then (Returns (Some errInvalidCreationRoundBlockHash), s2)
                          else (Returns None, s2)))))))"

subsection \<open>A RoundsManager that records its calls\<close>

text \<open>As the mock of the tests does, \<open>recording\<close> keeps the list of the calls made, in
  order, beside the state of the RoundsManager it wraps.\<close>

datatype call = Call_LastInitializedRound | Call_BlockHashForRound big_Int_ptr

definition recording :: "'s RoundsManager \<Rightarrow> (call list \<times> 's) RoundsManager" where
  "recording m =
     \<lparr> LastInitializedRound = (\<lambda>(calls, s).
          case LastInitializedRound m s of
            (res, s') \<Rightarrow> (res, (calls @ [Call_LastInitializedRound], s'))),
       BlockHashForRound = (\<lambda>round (calls, s).
          case BlockHashForRound m round s of
            (res, s') \<Rightarrow> (res, (calls @ [Call_BlockHashForRound round], s'))) \<rparr>"

text \<open>A RoundsManager without state that answers with a fixed round and a fixed hash,
  each with its error.\<close>

definition fixedRoundsManager ::
    "big_Int_ptr \<times> error option \<Rightarrow> hash32 \<times> error option \<Rightarrow> unit RoundsManager" where
  "fixedRoundsManager r h =
     \<lparr> LastInitializedRound = (\<lambda>s. (r, s)), BlockHashForRound = (\<lambda>round s. (h, s)) \<rparr>"

subsection \<open>The wire format in the words of its description\<close>

text \<open>Byte i of the k-byte big-endian encoding of n is the digit of n of weight
  \<open>256 ^ (k - 1 - i)\<close>; the round takes 32 bytes.\<close>

definition BigEndian :: "nat \<Rightarrow> nat \<Rightarrow> bytes" where
  "BigEndian k n = map (\<lambda>i. of_nat ((n div 256 ^ (k - 1 - i)) mod 256)) [0..<k]"

definition BigEndian32 :: "nat \<Rightarrow> bytes" where
  "BigEndian32 n = BigEndian 32 n"

text \<open>The value of a byte sequence read as an unsigned big-endian integer: byte i has
  weight \<open>256 ^ (length bs - 1 - i)\<close>.\<close>

definition unsigned_be :: "bytes \<Rightarrow> nat" where
  "unsigned_be bs = (\<Sum>i < length bs. unat (bs ! i) * 256 ^ (length bs - 1 - i))"

subsection \<open>What a run receives from the RoundsManager\<close>

text \<open>The answers of the RoundsManager in a run of Create, or of Validate on 64 bytes:
  the answer of LastInitializedRound and, when that one is without error, the answer of
  BlockHashForRound for the round returned.\<close>

definition responses ::
    "'s RoundsManager \<Rightarrow> 's \<Rightarrow>
      (big_Int_ptr \<times> error option) \<times> (hash32 \<times> error option) option" where
  "responses m s =
     (case LastInitializedRound m s of ((round, err), s1) \<Rightarrow>
        ((round, err),
         (case err of
            Some e \<Rightarrow> None
          | None \<Rightarrow> Some (fst (BlockHashForRound m round s1)))))"

section \<open>Big-endian bytes\<close>

lemma nat_bytes_0: "nat_bytes 0 = []"
  by (simp add: nat_bytes.simps)

lemma nat_bytes_pos: "0 < n \<Longrightarrow> nat_bytes n = nat_bytes (n div 256) @ [of_nat (n mod 256)]"
  by (subst nat_bytes.simps) simp

lemma length_nat_bytes_le: "length (nat_bytes n) \<le> k \<longleftrightarrow> n < 256 ^ k"
proof (induction k arbitrary: n)
  case 0
  show ?case by (cases "n = 0") (simp_all add: nat_bytes_0 nat_bytes_pos)
next
  case (Suc k)
  show ?case
  proof (cases "n = 0")
    case True
    then show ?thesis by (simp add: nat_bytes_0)
  next
    case False
    have "n div 256 < 256 ^ k \<longleftrightarrow> n < 256 ^ Suc k"
      by (simp add: less_mult_imp_div_less div_less_iff_less_mult mult.commute)
    with False Suc [of "n div 256"] show ?thesis
      by (simp add: nat_bytes_pos)
  qed
qed

lemma nat_setBytes_Nil: "nat_setBytes [] = 0"
  by (simp add: nat_setBytes_def)

lemma nat_setBytes_snoc: "nat_setBytes (bs @ [b]) = nat_setBytes bs * 256 + unat b"
  by (simp add: nat_setBytes_def)

lemma nat_setBytes_zeros: "nat_setBytes (replicate k 0 @ bs) = nat_setBytes bs"
  by (induction k) (simp_all add: nat_setBytes_def)

lemma nat_setBytes_nat_bytes: "nat_setBytes (nat_bytes n) = n"
proof (induction n rule: nat_bytes.induct)
  case (1 n)
  show ?case
  proof (cases "n = 0")
    case True
    then show ?thesis by (simp add: nat_bytes_0 nat_setBytes_Nil)
  next
    case False
    with 1 show ?thesis
      by (simp add: nat_bytes_pos nat_setBytes_snoc unat_of_nat)
  qed
qed

lemma nat_setBytes_bound: "nat_setBytes bs < 256 ^ length bs"
proof (induction bs rule: rev_induct)
  case Nil
  show ?case by (simp add: nat_setBytes_Nil)
next
  case (snoc b bs)
  have "unat b < 256" using unsigned_less [of b, where 'a = nat] by simp
  with snoc show ?case by (simp add: nat_setBytes_snoc)
qed

lemma nat_setBytes_inject:
  "length xs = length ys \<Longrightarrow> nat_setBytes xs = nat_setBytes ys \<Longrightarrow> xs = ys"
proof (induction xs arbitrary: ys rule: rev_induct)
  case Nil
  then show ?case by simp
next
  case (snoc a xs)
  then obtain b zs where ys: "ys = zs @ [b]"
    by (cases ys rule: rev_cases) auto
  have a: "unat a < 256" and b: "unat b < 256"
    using unsigned_less [of a, where 'a = nat] unsigned_less [of b, where 'a = nat] by simp_all
  from snoc.prems ys have eq: "nat_setBytes xs * 256 + unat a = nat_setBytes zs * 256 + unat b"
    by (simp add: nat_setBytes_snoc)
  have "(nat_setBytes xs * 256 + unat a) div 256 = nat_setBytes xs"
   and "(nat_setBytes zs * 256 + unat b) div 256 = nat_setBytes zs"
   and "(nat_setBytes xs * 256 + unat a) mod 256 = unat a"
   and "(nat_setBytes zs * 256 + unat b) mod 256 = unat b"
    using a b by simp_all
  with eq have v: "nat_setBytes xs = nat_setBytes zs" and u: "unat a = unat b"
    by simp_all
  from u have "a = b" by (rule word_unat_eq_iff [THEN iffD2])
  moreover from snoc.prems(1) ys have "length xs = length zs" by simp
  then have "xs = zs" using v by (rule snoc.IH)
  ultimately show ?case using ys by simp
qed

lemma unsigned_be_snoc: "unsigned_be (bs @ [b]) = unsigned_be bs * 256 + unat b"
proof -
  have "(\<Sum>i<length bs. unat ((bs @ [b]) ! i) * 256 ^ (length bs - i)) =
        (\<Sum>i<length bs. unat (bs ! i) * 256 ^ (length bs - 1 - i) * 256)"
  proof (rule sum.cong [OF refl])
    fix i assume "i \<in> {..<length bs}"
    then have i: "i < length bs" by simp
    then have "length bs - i = Suc (length bs - 1 - i)" by simp
    with i show "unat ((bs @ [b]) ! i) * 256 ^ (length bs - i) =
                 unat (bs ! i) * 256 ^ (length bs - 1 - i) * 256"
      by (simp add: nth_append)
  qed
  then show ?thesis
    by (simp add: unsigned_be_def sum_distrib_right)
qed

lemma unsigned_be_eq: "unsigned_be bs = nat_setBytes bs"
proof (induction bs rule: rev_induct)
  case Nil
  show ?case by (simp add: unsigned_be_def nat_setBytes_Nil)
next
  case (snoc b bs)
  then show ?case by (simp add: unsigned_be_snoc nat_setBytes_snoc)
qed

lemma BigEndian_Suc: "BigEndian (Suc k) n = BigEndian k (n div 256) @ [of_nat (n mod 256)]"
proof -
  have "map (\<lambda>i. (of_nat ((n div 256 ^ (k - i)) mod 256) :: byte)) [0..<k] =
        map (\<lambda>i. of_nat (((n div 256) div 256 ^ (k - 1 - i)) mod 256)) [0..<k]"
  proof (rule map_cong [OF refl])
    fix i assume "i \<in> set [0..<k]"
    then have "k - i = Suc (k - 1 - i)" by simp
    then show "(of_nat ((n div 256 ^ (k - i)) mod 256) :: byte) =
               of_nat (((n div 256) div 256 ^ (k - 1 - i)) mod 256)"
      by (simp add: div_mult2_eq)
  qed
  then show ?thesis by (simp add: BigEndian_def)
qed

lemma LeftPadBytes_nat_bytes:
  "n < 256 ^ k \<Longrightarrow> LeftPadBytes (nat_bytes n) k = BigEndian k n"
proof (induction k arbitrary: n)
  case 0
  then show ?case by (simp add: LeftPadBytes_def BigEndian_def nat_bytes_0)
next
  case (Suc k)
  then have lt: "n div 256 < 256 ^ k"
    by (simp add: less_mult_imp_div_less mult.commute)
  then have len: "length (nat_bytes (n div 256)) \<le> k"
    by (simp add: length_nat_bytes_le)
  have "LeftPadBytes (nat_bytes n) (Suc k) =
        LeftPadBytes (nat_bytes (n div 256)) k @ [of_nat (n mod 256)]"
  proof (cases "n = 0")
    case True
    then show ?thesis
      by (simp add: LeftPadBytes_def nat_bytes_0 replicate_append_same)
  next
    case False
    with len show ?thesis
      by (auto simp add: LeftPadBytes_def nat_bytes_pos Suc_diff_le)
  qed
  with Suc.IH [OF lt] show ?case by (simp add: BigEndian_Suc)
qed

section \<open>Create and Validate step by step\<close>

lemma length_slice_of: "length (slice_of h) = 32"
  using slice_of [of h] by simp

lemma slice_of_emptyBlkHash: "slice_of h = replicate 32 0 \<longleftrightarrow> h = emptyBlkHash"
  by (simp add: slice_of_inject [symmetric] emptyBlkHash.rep_eq)

lemma length_BigEndian: "length (BigEndian k n) = k"
  by (simp add: BigEndian_def)

lemma BigEndian_0: "BigEndian k 0 = replicate k 0"
  by (simp add: BigEndian_def map_replicate_const)

lemma Int_Bytes_nonneg: "0 \<le> r \<Longrightarrow> Int_Bytes r = nat_bytes (nat r)"
  by (simp add: Int_Bytes_def)

lemma LeftPadBytes_Int_Bytes:
  assumes "0 \<le> r" and "r < 2 ^ 256"
  shows "LeftPadBytes (Int_Bytes r) 32 = BigEndian32 (nat r)"
proof -
  from assms have "nat r < 2 ^ 256" by (simp add: nat_less_iff)
  then have "nat r < 256 ^ 32" by simp
  then have "LeftPadBytes (nat_bytes (nat r)) 32 = BigEndian 32 (nat r)"
    by (rule LeftPadBytes_nat_bytes)
  with assms(1) show ?thesis by (simp add: Int_Bytes_nonneg BigEndian32_def)
qed

lemma Int_SetBytes_LeftPadBytes: "Int_SetBytes (LeftPadBytes (Int_Bytes r) l) = \<bar>r\<bar>"
  by (simp add: Int_SetBytes_def LeftPadBytes_def Int_Bytes_def nat_setBytes_zeros
      nat_setBytes_nat_bytes)

lemma Create_Returns:
  assumes "LastInitializedRound c s = ((Some r, None), s1)"
    and "BlockHashForRound c (Some r) s1 = ((h, None), s2)"
  shows "Create c s = (Returns (Some (LeftPadBytes (Int_Bytes r) 32 @ slice_of h), None), s2)"
  using assms by (simp add: Create_def)

lemma Validate_Returns:
  assumes "length auxData = 64"
    and "LastInitializedRound v s = ((Some r, None), s1)"
    and "BlockHashForRound v (Some r) s1 = ((h, None), s2)"
  shows "Validate v auxData s =
    (Returns (if Int_SetBytes (take 32 auxData) \<noteq> r then Some errInvalidCreationRound
              else if drop 32 auxData \<noteq> slice_of h then Some errInvalidCreationRoundBlockHash
              else None), s2)"
  using assms by (simp add: Validate_def Int_Cmp_def bytes_Equal_def Let_def)

lemma Validate_length: 
  "length auxData \<noteq> 64 \<Longrightarrow> Validate v auxData s = (Returns (Some errInvalidAuxDataLength), s)"
  by (simp add: Validate_def)

lemma length_LeftPadBytes_32:
  assumes "0 \<le> r" and "r < 2 ^ 256"
  shows "length (LeftPadBytes (Int_Bytes r) 32) = 32"
  using assms by (simp add: LeftPadBytes_Int_Bytes BigEndian32_def length_BigEndian)

lemma Int_SetBytes_unsigned_be: "Int_SetBytes bs = int (unsigned_be bs)"
  by (simp add: Int_SetBytes_def unsigned_be_eq)

lemma Create_LastInitializedRound_error:
  "LastInitializedRound c s = ((round, Some e), s1) \<Longrightarrow> Create c s = (Returns (None, Some e), s1)"
  by (simp add: Create_def)

lemma Create_BlockHashForRound_error:
  "LastInitializedRound c s = ((round, None), s1) \<Longrightarrow>
   BlockHashForRound c round s1 = ((h, Some e), s2) \<Longrightarrow>
   Create c s = (Returns (None, Some e), s2)"
  by (simp add: Create_def)

lemma Validate_LastInitializedRound_error:
  "length auxData = 64 \<Longrightarrow> LastInitializedRound v s = ((round, Some e), s1) \<Longrightarrow>
   Validate v auxData s = (Returns (Some e), s1)"
  by (simp add: Validate_def Let_def)

lemma Validate_BlockHashForRound_error:
  "length auxData = 64 \<Longrightarrow> LastInitializedRound v s = ((round, None), s1) \<Longrightarrow>
   BlockHashForRound v round s1 = ((h, Some e), s2) \<Longrightarrow>
   Validate v auxData s = (Returns (Some e), s2)"
  by (simp add: Validate_def Let_def)

lemma Validate_nil_round:
  "length auxData = 64 \<Longrightarrow> LastInitializedRound v s = ((None, None), s1) \<Longrightarrow>
   BlockHashForRound v None s1 = ((h, None), s2) \<Longrightarrow>
   Validate v auxData s = (Panics, s2)"
  by (simp add: Validate_def Let_def)

lemma recording_LastInitializedRound:
  "LastInitializedRound v s = (res, s1) \<Longrightarrow>
   LastInitializedRound (recording v) (calls, s) = (res, (calls @ [Call_LastInitializedRound], s1))"
  by (simp add: recording_def)

lemma recording_BlockHashForRound:
  "BlockHashForRound v round s = (res, s1) \<Longrightarrow>
   BlockHashForRound (recording v) round (calls, s) =
     (res, (calls @ [Call_BlockHashForRound round], s1))"
  by (simp add: recording_def)

lemma Validate_decision:
  assumes "LastInitializedRound v s = ((round, err), s1)"
    and "BlockHashForRound v round s1 = ((blkHash, err'), s2)"
  shows "fst (Validate v auxData s) =
    (if length auxData \<noteq> 64 then Returns (Some errInvalidAuxDataLength)
     else case err of
       Some e \<Rightarrow> Returns (Some e)
     | None \<Rightarrow>
        (case err' of
           Some e \<Rightarrow> Returns (Some e)
         | None \<Rightarrow>
            (case round of
               None \<Rightarrow> Panics
             | Some r \<Rightarrow>
                Returns
                  (if int (unsigned_be (take 32 auxData)) \<noteq> r then Some errInvalidCreationRound
                   else if drop 32 auxData \<noteq> slice_of blkHash
                     then Some errInvalidCreationRoundBlockHash
                   else None))))"
proof (cases "length auxData = 64")
  case False
  then show ?thesis by (simp add: Validate_length)
next
  case len: True
  show ?thesis
  proof (cases err)
    case (Some e)
    with len assms(1) show ?thesis
      by (simp add: Validate_LastInitializedRound_error)
  next
    case None
    note err = this
    show ?thesis
    proof (cases err')
      case (Some e)
      with len err assms show ?thesis
        by (simp add: Validate_BlockHashForRound_error)
    next
      case None
      note err' = this
      show ?thesis
      proof (cases round)
        case None
        with len err err' assms show ?thesis
          by (simp add: Validate_nil_round)
      next
        case (Some r)
        with len err err' assms show ?thesis
          by (simp add: Validate_Returns Int_SetBytes_unsigned_be)
      qed
    qed
  qed
qed

lemma nat_setBytes_replicate_0: "nat_setBytes (replicate k 0) = 0"
  using nat_setBytes_zeros [of k "[]"] by (simp add: nat_setBytes_Nil)

lemma unsigned_be_padded: "unsigned_be (replicate k 0 @ [b]) = unat b"
proof -
  have "nat_setBytes [b] = unat b" by (simp add: nat_setBytes_def)
  then show ?thesis by (simp only: unsigned_be_eq nat_setBytes_zeros)
qed

lemma emptyBlkHash_eq: "replicate 32 0 = slice_of h \<longleftrightarrow> h = emptyBlkHash"
  using slice_of_emptyBlkHash [of h] by auto

lemma length_nat_bytes_Least: "length (nat_bytes n) = (LEAST k. n < 256 ^ k)"
proof (rule Least_equality [symmetric])
  show "n < 256 ^ length (nat_bytes n)"
    using length_nat_bytes_le [of n "length (nat_bytes n)"] by simp
next
  fix k
  assume "n < 256 ^ k"
  then show "length (nat_bytes n) \<le> k"
    by (simp add: length_nat_bytes_le)
qed

text \<open>Within 32 bytes a number has one encoding only: aux data that passes the
  comparison of the round carries the bytes that Create writes.\<close>

lemma nat_setBytes_BigEndian:
  assumes "n < 256 ^ k"
  shows "nat_setBytes (BigEndian k n) = n"
proof -
  have "nat_setBytes (LeftPadBytes (nat_bytes n) k) = n"
    by (simp add: LeftPadBytes_def nat_setBytes_zeros nat_setBytes_nat_bytes)
  with assms show ?thesis by (simp add: LeftPadBytes_nat_bytes)
qed

lemma unsigned_be_unique:
  assumes "length bs = 32"
  shows "bs = BigEndian32 (unsigned_be bs)"
proof -
  have "nat_setBytes bs < 256 ^ 32"
    using nat_setBytes_bound [of bs] assms by simp
  then have "nat_setBytes (BigEndian 32 (nat_setBytes bs)) = nat_setBytes bs"
    by (rule nat_setBytes_BigEndian)
  moreover have "length bs = length (BigEndian 32 (nat_setBytes bs))"
    using assms by (simp add: length_BigEndian)
  ultimately have "bs = BigEndian 32 (nat_setBytes bs)"
    by (simp add: nat_setBytes_inject)
  then show ?thesis by (simp add: BigEndian32_def unsigned_be_eq)
qed

subsection \<open>A case of \<^verbatim>\<open>auxdata_test.go\<close>\<close>

text \<open>The normal case of TestCreate: round 5 and the block hash of the tests give the
  64 bytes that the test expects.\<close>

lemma Int_Bytes_5: "Int_Bytes 5 = [5]"
  by (simp add: Int_Bytes_def nat_bytes_pos nat_bytes_0)

lemma TestCreate_normal_case:
  "Create (fixedRoundsManager (Some 5, None) (testBlkHash, None)) () =
     (Returns (Some
       [0, 0, 0, 0, 0, 0, 0, 0, 0, 0, 0, 0, 0, 0, 0, 0, 0, 0, 0, 0, 0, 0, 0, 0, 0, 0, 0, 0, 0, 0, 0, 5,
        0x76, 0x24, 0x77, 0x8d, 0xed, 0xc7, 0x5f, 0x8b, 0x32, 0x2b, 0x9f, 0xa1, 0x63, 0x2a, 0x61, 0x0d,
        0x40, 0xb8, 0x5e, 0x10, 0x6c, 0x7d, 0x9b, 0xf0, 0xe7, 0x43, 0xa9, 0xce, 0x29, 0x1b, 0x9c, 0x6f],
       None), ())"
proof -
  have "replicate 31 (0 :: byte) =
      [0, 0, 0, 0, 0, 0, 0, 0, 0, 0, 0, 0, 0, 0, 0, 0, 0, 0, 0, 0, 0, 0, 0, 0, 0, 0, 0, 0, 0, 0, 0]"
    by (simp add: numeral_eq_Suc)
  then show ?thesis
    by (simp add: Create_def fixedRoundsManager_def Int_Bytes_5 LeftPadBytes_def
        testBlkHash.rep_eq)
qed

section \<open>The properties of Create and Validate\<close>

text \<open>Claim C1. Round trip: for a round \<open>0 \<le> r < 2 ^ 256\<close> and a block hash h, when the
  RoundsManager answers \<open>(r, h)\<close> without error to the two calls of Create and again to
  the two calls of Validate, Create returns aux data with a nil error and Validate of that
  aux data returns nil.\<close>

theorem Validate_Create_roundtrip:
  assumes "0 \<le> r" and "r < 2 ^ 256"
    and "LastInitializedRound c s = ((Some r, None), s1)"
    and "BlockHashForRound c (Some r) s1 = ((h, None), s2)"
    and "LastInitializedRound v t = ((Some r, None), t1)"
    and "BlockHashForRound v (Some r) t1 = ((h, None), t2)"
  shows "\<exists>auxData. Create c s = (Returns (Some auxData, None), s2) \<and>
           Validate v auxData t = (Returns None, t2)"
proof -
  let ?round = "LeftPadBytes (Int_Bytes r) 32"
  let ?auxData = "?round @ slice_of h"
  have len: "length ?round = 32"
    using assms(1,2) by (rule length_LeftPadBytes_32)
  then have "length ?auxData = 64" by (simp add: length_slice_of)
  moreover have "take 32 ?auxData = ?round" and "drop 32 ?auxData = slice_of h"
    using len by simp_all
  moreover have "Int_SetBytes ?round = r"
    using assms(1) by (simp add: Int_SetBytes_LeftPadBytes)
  ultimately have "Validate v ?auxData t = (Returns None, t2)"
    using assms(5,6) by (simp add: Validate_Returns)
  moreover have "Create c s = (Returns (Some ?auxData, None), s2)"
    using assms(3,4) by (rule Create_Returns)
  ultimately show ?thesis by blast
qed

theorem Validate_Create_roundtrip_witness:
  "\<exists>auxData. Create (fixedRoundsManager (Some 5, None) (testBlkHash, None)) () =
       (Returns (Some auxData, None), ()) \<and>
     Validate (fixedRoundsManager (Some 5, None) (testBlkHash, None)) auxData () =
       (Returns None, ())"
  using Validate_Create_roundtrip [of 5 "fixedRoundsManager (Some 5, None) (testBlkHash, None)"
      "()" "()" testBlkHash "()" "fixedRoundsManager (Some 5, None) (testBlkHash, None)" "()" "()" "()"]
  by (simp add: fixedRoundsManager_def)

text \<open>Claim C2. Output format of Create: for a round \<open>0 \<le> r < 2 ^ 256\<close> and a block hash h
  answered without error, Create returns a nil error and the 32-byte big-endian encoding
  of r followed by the 32 bytes of h, 64 bytes in all; round 0 is encoded as 32 zero bytes,
  and round 0 with the zero hash gives 64 zero bytes.\<close>

theorem Create_output_format:
  assumes "0 \<le> r" and "r < 2 ^ 256"
    and "LastInitializedRound c s = ((Some r, None), s1)"
    and "BlockHashForRound c (Some r) s1 = ((h, None), s2)"
  shows "Create c s = (Returns (Some (BigEndian32 (nat r) @ slice_of h), None), s2) \<and>
         length (BigEndian32 (nat r) @ slice_of h) = 64 \<and>
         (r = 0 \<longrightarrow> BigEndian32 (nat r) = replicate 32 0) \<and>
         (r = 0 \<and> h = emptyBlkHash \<longrightarrow> BigEndian32 (nat r) @ slice_of h = replicate 64 0)"
proof -
  have "Create c s = (Returns (Some (BigEndian32 (nat r) @ slice_of h), None), s2)"
    using Create_Returns [OF assms(3,4)] LeftPadBytes_Int_Bytes [OF assms(1,2)] by simp
  moreover have "length (BigEndian32 (nat r) @ slice_of h) = 64"
    by (simp add: BigEndian32_def length_BigEndian length_slice_of)
  moreover have z: "BigEndian32 0 = replicate 32 0"
    by (simp add: BigEndian32_def BigEndian_0)
  moreover have "BigEndian32 0 @ slice_of emptyBlkHash = replicate 64 0"
    by (simp add: z emptyBlkHash.rep_eq replicate_add [symmetric])
  ultimately show ?thesis by simp
qed

theorem Create_output_format_witness:
  "Create (fixedRoundsManager (Some 0, None) (emptyBlkHash, None)) () =
     (Returns (Some (replicate 64 0), None), ())"
proof -
  let ?c = "fixedRoundsManager (Some 0, None) (emptyBlkHash, None)"
  have "LastInitializedRound ?c () = ((Some 0, None), ())"
    and "BlockHashForRound ?c (Some 0) () = ((emptyBlkHash, None), ())"
    by (simp_all add: fixedRoundsManager_def)
  from Create_output_format [OF _ _ this] show ?thesis
    by (simp add: emptyBlkHash.rep_eq flip: replicate_add)
qed

text \<open>Claim C3. Aux data whose length is not 64 is rejected with errInvalidAuxDataLength
  whatever its content, and without a call of the RoundsManager: its state is the one
  before, and a RoundsManager that records its calls has recorded none.\<close>

theorem Validate_invalid_length:
  assumes "length auxData \<noteq> 64"
  shows "Validate v auxData s = (Returns (Some errInvalidAuxDataLength), s) \<and>
         Validate (recording v) auxData ([], s) = (Returns (Some errInvalidAuxDataLength), ([], s))"
  using assms by (simp add: Validate_length)

theorem Validate_invalid_length_witness:
  "Validate (fixedRoundsManager (Some 5, None) (testBlkHash, None)) [] () =
     (Returns (Some errInvalidAuxDataLength), ()) \<and>
   Validate (recording (fixedRoundsManager (Some 5, None) (testBlkHash, None))) [] ([], ()) =
     (Returns (Some errInvalidAuxDataLength), ([], ()))"
  using Validate_invalid_length [of "[]" "fixedRoundsManager (Some 5, None) (testBlkHash, None)" "()"]
  by simp

text \<open>Claim C4. An error e of LastInitializedRound, or of BlockHashForRound after a
  LastInitializedRound without error, is returned as it is: by Create together with a nil
  slice, and by Validate on aux data of 64 bytes.\<close>

theorem oracle_error_propagation:
  "(LastInitializedRound m s = ((round, Some e), s1) \<longrightarrow>
      Create m s = (Returns (None, Some e), s1) \<and>
      (length auxData = 64 \<longrightarrow> Validate m auxData s = (Returns (Some e), s1))) \<and>
   (LastInitializedRound m' t = ((round', None), t1) \<and>
    BlockHashForRound m' round' t1 = ((h, Some e'), t2) \<longrightarrow>
      Create m' t = (Returns (None, Some e'), t2) \<and>
      (length auxData' = 64 \<longrightarrow> Validate m' auxData' t = (Returns (Some e'), t2)))"
  by (simp add: Create_LastInitializedRound_error Create_BlockHashForRound_error
      Validate_LastInitializedRound_error Validate_BlockHashForRound_error)

theorem oracle_error_propagation_witness:
  "Create (fixedRoundsManager (None, Some (errors_New ''LastInitializedRound error''))
      (emptyBlkHash, None)) () =
     (Returns (None, Some (errors_New ''LastInitializedRound error'')), ()) \<and>
   Validate (fixedRoundsManager (None, Some (errors_New ''LastInitializedRound error''))
      (emptyBlkHash, None)) (replicate 64 0) () =
     (Returns (Some (errors_New ''LastInitializedRound error'')), ()) \<and>
   Create (fixedRoundsManager (Some 5, None)
      (emptyBlkHash, Some (errors_New ''BlockHashForRound error''))) () =
     (Returns (None, Some (errors_New ''BlockHashForRound error'')), ()) \<and>
   Validate (fixedRoundsManager (Some 5, None)
      (emptyBlkHash, Some (errors_New ''BlockHashForRound error''))) (replicate 64 0) () =
     (Returns (Some (errors_New ''BlockHashForRound error'')), ())"
  using oracle_error_propagation [of
      "fixedRoundsManager (None, Some (errors_New ''LastInitializedRound error'')) (emptyBlkHash, None)"
      "()" None "errors_New ''LastInitializedRound error''" "()" "replicate 64 0"
      "fixedRoundsManager (Some 5, None) (emptyBlkHash, Some (errors_New ''BlockHashForRound error''))"
      "()" "Some 5" "()" emptyBlkHash "errors_New ''BlockHashForRound error''" "()" "replicate 64 0"]
  by (simp add: fixedRoundsManager_def)

text \<open>Claim C5. The result of Validate follows one order of priority: the length of the
  aux data first, then an error of LastInitializedRound, then an error of BlockHashForRound,
  then the round, compared as a number, then the block hash, compared byte by byte. The
  errors of the RoundsManager come before both comparisons, and aux data of 64 bytes whose
  round and hash both differ from the current ones gets errInvalidCreationRound.
  (\<open>round\<close>, \<open>err\<close>) and (\<open>blkHash\<close>, \<open>err'\<close>) are the answers of the RoundsManager; a nil
  round without error makes the comparison panic.\<close>

theorem Validate_error_priority:
  assumes "LastInitializedRound v s = ((round, err), s1)"
    and "BlockHashForRound v round s1 = ((blkHash, err'), s2)"
  shows "fst (Validate v auxData s) =
    (if length auxData \<noteq> 64 then Returns (Some errInvalidAuxDataLength)
     else case err of
       Some e \<Rightarrow> Returns (Some e)
     | None \<Rightarrow>
        (case err' of
           Some e \<Rightarrow> Returns (Some e)
         | None \<Rightarrow>
            (case round of
               None \<Rightarrow> Panics
             | Some r \<Rightarrow>
                Returns
                  (if int (unsigned_be (take 32 auxData)) \<noteq> r then Some errInvalidCreationRound
                   else if drop 32 auxData \<noteq> slice_of blkHash
                     then Some errInvalidCreationRoundBlockHash
                   else None)))) \<and>
    (length auxData = 64 \<and> err = None \<and> err' = None \<and> round = Some r \<and>
     int (unsigned_be (take 32 auxData)) \<noteq> r \<and> drop 32 auxData \<noteq> slice_of blkHash \<longrightarrow>
       fst (Validate v auxData s) = Returns (Some errInvalidCreationRound))"
  using Validate_decision [OF assms, of auxData] by simp

theorem Validate_error_priority_witness:
  "fst (Validate (fixedRoundsManager (Some 2, None) (emptyBlkHash, None))
     (replicate 31 0 @ [5] @ slice_of testBlkHash) ()) = Returns (Some errInvalidCreationRound)"
proof -
  let ?v = "fixedRoundsManager (Some 2, None) (emptyBlkHash, None)"
  let ?auxData = "replicate 31 0 @ [5] @ slice_of testBlkHash"
  have "LastInitializedRound ?v () = ((Some 2, None), ())"
    and "BlockHashForRound ?v (Some 2) () = ((emptyBlkHash, None), ())"
    by (simp_all add: fixedRoundsManager_def)
  moreover have "take 32 ?auxData = replicate 31 0 @ [5]"
    by simp
  then have "int (unsigned_be (take 32 ?auxData)) = 5"
    by (simp only: unsigned_be_padded) simp
  ultimately show ?thesis
    using Validate_error_priority [of ?v "()" "Some 2" None "()" emptyBlkHash None "()" ?auxData 2]
    by (simp add: length_slice_of)
qed

text \<open>Claim C6. On aux data of 64 bytes whose round differs from the current round r',
  Validate calls LastInitializedRound and then BlockHashForRound with r' (not with the
  round of the aux data), and no more; it returns errInvalidCreationRound when that second
  call is without error, and the error of that call otherwise.\<close>

theorem Validate_queries_current_round:
  assumes "length auxData = 64"
    and "int (unsigned_be (take 32 auxData)) \<noteq> r'"
    and "LastInitializedRound v s = ((Some r', None), s1)"
    and "BlockHashForRound v (Some r') s1 = ((blkHash, err'), s2)"
  shows "Validate (recording v) auxData ([], s) =
     (Returns (case err' of None \<Rightarrow> Some errInvalidCreationRound | Some e \<Rightarrow> Some e),
      ([Call_LastInitializedRound, Call_BlockHashForRound (Some r')], s2))"
proof -
  have 1: "LastInitializedRound (recording v) ([], s) =
      ((Some r', None), ([Call_LastInitializedRound], s1))"
    using recording_LastInitializedRound [OF assms(3), of "[]"] by simp
  have 2: "BlockHashForRound (recording v) (Some r') ([Call_LastInitializedRound], s1) =
      ((blkHash, err'), ([Call_LastInitializedRound, Call_BlockHashForRound (Some r')], s2))"
    using recording_BlockHashForRound [OF assms(4), of "[Call_LastInitializedRound]"] by simp
  show ?thesis
  proof (cases err')
    case None
    with assms(1,2) 1 2 show ?thesis
      by (simp add: Validate_Returns Int_SetBytes_unsigned_be)
  next
    case (Some e)
    with assms(1) 1 2 show ?thesis
      by (simp add: Validate_BlockHashForRound_error)
  qed
qed

theorem Validate_queries_current_round_witness:
  "Validate (recording (fixedRoundsManager (Some 5, None) (testBlkHash, None)))
     (replicate 31 0 @ [2] @ slice_of testBlkHash) ([], ()) =
     (Returns (Some errInvalidCreationRound),
      ([Call_LastInitializedRound, Call_BlockHashForRound (Some 5)], ()))"
proof -
  let ?v = "fixedRoundsManager (Some 5, None) (testBlkHash, None)"
  let ?auxData = "replicate 31 0 @ [2] @ slice_of testBlkHash"
  have "length ?auxData = 64"
    by (simp add: length_slice_of)
  moreover have "take 32 ?auxData = replicate 31 0 @ [2]"
    by simp
  then have "int (unsigned_be (take 32 ?auxData)) \<noteq> 5"
    by (simp only: unsigned_be_padded) simp
  moreover have "LastInitializedRound ?v () = ((Some 5, None), ())"
    and "BlockHashForRound ?v (Some 5) () = ((testBlkHash, None), ())"
    by (simp_all add: fixedRoundsManager_def)
  ultimately show ?thesis
    using Validate_queries_current_round [of ?auxData 5 ?v "()" "()" testBlkHash None "()"]
    by simp
qed

text \<open>Claim C7. Validate returns nil exactly when the aux data has 64 bytes, both calls
  of the RoundsManager are without error, the first 32 bytes read as an unsigned big-endian
  number equal the current round, and the last 32 bytes are the bytes of its block hash.\<close>

theorem Validate_success_iff:
  "fst (Validate v auxData s) = Returns None \<longleftrightarrow>
     length auxData = 64 \<and>
     (\<exists>r s1 blkHash s2.
        LastInitializedRound v s = ((Some r, None), s1) \<and>
        BlockHashForRound v (Some r) s1 = ((blkHash, None), s2) \<and>
        int (unsigned_be (take 32 auxData)) = r \<and>
        drop 32 auxData = slice_of blkHash)"
proof -
  obtain round err s1 where 1: "LastInitializedRound v s = ((round, err), s1)"
    by (metis prod.exhaust)
  obtain blkHash err' s2 where 2: "BlockHashForRound v round s1 = ((blkHash, err'), s2)"
    by (metis prod.exhaust)
  show ?thesis
    using Validate_decision [OF 1 2, of auxData] 1 2
    by (auto split: option.splits if_splits)
qed

theorem Validate_success_iff_witness:
  "fst (Validate (fixedRoundsManager (Some 5, None) (testBlkHash, None))
     (replicate 31 0 @ [5] @ slice_of testBlkHash) ()) = Returns None"
proof -
  let ?v = "fixedRoundsManager (Some 5, None) (testBlkHash, None)"
  let ?auxData = "replicate 31 0 @ [5] @ slice_of testBlkHash"
  have "length ?auxData = 64"
    by (simp add: length_slice_of)
  moreover have "LastInitializedRound ?v () = ((Some 5, None), ())"
    and "BlockHashForRound ?v (Some 5) () = ((testBlkHash, None), ())"
    by (simp_all add: fixedRoundsManager_def)
  moreover have "take 32 ?auxData = replicate 31 0 @ [5]"
    by simp
  then have "int (unsigned_be (take 32 ?auxData)) = 5"
    by (simp only: unsigned_be_padded) simp
  moreover have "drop 32 ?auxData = slice_of testBlkHash"
    by simp
  ultimately show ?thesis
    using Validate_success_iff [of ?v ?auxData "()"] by blast
qed

text \<open>Claim C8. With both calls of the RoundsManager without error, Validate of 64 zero
  bytes returns nil exactly when the current round is 0 and its block hash is the zero
  hash.\<close>

theorem Validate_zero_not_sentinel:
  assumes "LastInitializedRound v s = ((Some r, None), s1)"
    and "BlockHashForRound v (Some r) s1 = ((blkHash, None), s2)"
  shows "fst (Validate v (replicate 64 0) s) = Returns None \<longleftrightarrow>
         r = 0 \<and> blkHash = emptyBlkHash"
proof -
  have "unsigned_be (take 32 (replicate 64 0)) = 0"
    by (simp add: unsigned_be_eq nat_setBytes_replicate_0)
  moreover have "drop 32 (replicate 64 0) = replicate 32 (0 :: byte)"
    by simp
  ultimately have "fst (Validate v (replicate 64 0) s) =
      Returns (if 0 \<noteq> r then Some errInvalidCreationRound
               else if blkHash \<noteq> emptyBlkHash then Some errInvalidCreationRoundBlockHash
               else None)"
    using Validate_decision [OF assms, of "replicate 64 0"]
    by (simp add: emptyBlkHash_eq)
  then show ?thesis by auto
qed

theorem Validate_zero_not_sentinel_witness:
  "fst (Validate (fixedRoundsManager (Some 0, None) (emptyBlkHash, None)) (replicate 64 0) ()) =
     Returns None \<and>
   fst (Validate (fixedRoundsManager (Some 5, None) (emptyBlkHash, None)) (replicate 64 0) ()) \<noteq>
     Returns None"
proof -
  let ?v = "fixedRoundsManager (Some 0, None) (emptyBlkHash, None)"
  let ?v' = "fixedRoundsManager (Some 5, None) (emptyBlkHash, None)"
  have "LastInitializedRound ?v () = ((Some 0, None), ())"
    and "BlockHashForRound ?v (Some 0) () = ((emptyBlkHash, None), ())"
    by (simp_all add: fixedRoundsManager_def)
  moreover have "LastInitializedRound ?v' () = ((Some 5, None), ())"
    and "BlockHashForRound ?v' (Some 5) () = ((emptyBlkHash, None), ())"
    by (simp_all add: fixedRoundsManager_def)
  ultimately show ?thesis
    using Validate_zero_not_sentinel [of ?v "()" 0 "()" emptyBlkHash "()"]
      Validate_zero_not_sentinel [of ?v' "()" 5 "()" emptyBlkHash "()"]
    by simp
qed

text \<open>Claim C9. Two runs that receive the same answers from their RoundsManagers (which
  may differ, as may their states) give the same result: the same aux data and error for
  Create, the same error for Validate on the same aux data.\<close>

theorem Create_Validate_deterministic:
  assumes "responses m s = responses m' s'"
  shows "fst (Create m s) = fst (Create m' s') \<and>
         fst (Validate m auxData s) = fst (Validate m' auxData s')"
proof -
  obtain round err s1 where 1: "LastInitializedRound m s = ((round, err), s1)"
    by (metis prod.exhaust)
  obtain blkHash e2 s2 where 2: "BlockHashForRound m round s1 = ((blkHash, e2), s2)"
    by (metis prod.exhaust)
  obtain round' err' t1 where 3: "LastInitializedRound m' s' = ((round', err'), t1)"
    by (metis prod.exhaust)
  obtain blkHash' e2' t2 where 4: "BlockHashForRound m' round' t1 = ((blkHash', e2'), t2)"
    by (metis prod.exhaust)
  from assms 1 3 have r: "round' = round" "err' = err"
    by (simp_all add: responses_def)
  from assms 1 2 3 4 r have h: "err = None \<Longrightarrow> blkHash' = blkHash \<and> e2' = e2"
    by (simp add: responses_def)
  have "fst (Create m s) = fst (Create m' s')"
    using 1 2 3 4 r h by (cases err) (simp_all add: Create_def split: option.splits)
  moreover have "fst (Validate m auxData s) = fst (Validate m' auxData s')"
    using 1 2 3 4 r h by (cases err) (simp_all add: Validate_def Let_def split: option.splits)
  ultimately show ?thesis ..
qed

theorem Create_Validate_deterministic_witness:
  "fst (Create (fixedRoundsManager (Some 5, None) (testBlkHash, None)) ()) =
     fst (Create (recording (fixedRoundsManager (Some 5, None) (testBlkHash, None))) ([], ())) \<and>
   fst (Validate (fixedRoundsManager (Some 5, None) (testBlkHash, None)) (replicate 64 0) ()) =
     fst (Validate (recording (fixedRoundsManager (Some 5, None) (testBlkHash, None)))
       (replicate 64 0) ([], ()))"
proof -
  let ?m = "fixedRoundsManager (Some 5, None) (testBlkHash, None)"
  have "responses ?m () = responses (recording ?m) ([], ())"
    by (simp add: responses_def recording_def fixedRoundsManager_def)
  then show ?thesis
    by (rule Create_Validate_deterministic)
qed

text \<open>Claim C10. For a round \<open>r \<ge> 2 ^ 256\<close> answered without error, Create returns a nil
  error and aux data of \<open>32 + length (Int_Bytes r)\<close> bytes, where \<open>length (Int_Bytes r)\<close> is
  the least number of bytes that hold r; that is more than 64 bytes, and Validate rejects
  such aux data for its length.\<close>

theorem Create_oversized_round:
  assumes "2 ^ 256 \<le> r"
    and "LastInitializedRound c s = ((Some r, None), s1)"
    and "BlockHashForRound c (Some r) s1 = ((blkHash, None), s2)"
  shows "\<exists>auxData. Create c s = (Returns (Some auxData, None), s2) \<and>
           length auxData = 32 + length (Int_Bytes r) \<and>
           length (Int_Bytes r) = (LEAST k. nat r < 256 ^ k) \<and>
           64 < length auxData \<and>
           Validate v auxData t = (Returns (Some errInvalidAuxDataLength), t)"
proof -
  from assms(1) have r: "0 \<le> r" and "\<not> nat r < 2 ^ 256"
    by (simp_all add: nat_less_iff)
  then have "\<not> nat r < 256 ^ 32" by simp
  then have "\<not> length (nat_bytes (nat r)) \<le> 32"
    by (simp add: length_nat_bytes_le)
  with r have long: "32 < length (Int_Bytes r)"
    by (simp add: Int_Bytes_nonneg)
  then have pad: "LeftPadBytes (Int_Bytes r) 32 = Int_Bytes r"
    by (simp add: LeftPadBytes_def)
  let ?auxData = "Int_Bytes r @ slice_of blkHash"
  have "Create c s = (Returns (Some ?auxData, None), s2)"
    using Create_Returns [OF assms(2,3)] pad by simp
  moreover have len: "length ?auxData = 32 + length (Int_Bytes r)"
    by (simp add: length_slice_of)
  moreover have "length (Int_Bytes r) = (LEAST k. nat r < 256 ^ k)"
    using r by (simp add: Int_Bytes_nonneg length_nat_bytes_Least)
  moreover from long len have gt: "64 < length ?auxData" by simp
  moreover from gt have "Validate v ?auxData t = (Returns (Some errInvalidAuxDataLength), t)"
    by (simp add: Validate_length)
  ultimately show ?thesis by blast
qed

theorem Create_oversized_round_witness:
  "\<exists>auxData. Create (fixedRoundsManager (Some (2 ^ 256), None) (emptyBlkHash, None)) () =
       (Returns (Some auxData, None), ()) \<and>
     length auxData = 65 \<and>
     Validate (fixedRoundsManager (Some (2 ^ 256), None) (emptyBlkHash, None)) auxData () =
       (Returns (Some errInvalidAuxDataLength), ())"
proof -
  let ?c = "fixedRoundsManager (Some (2 ^ 256), None) (emptyBlkHash, None)"
  have "length (nat_bytes (2 ^ 256)) \<le> 33" and "\<not> length (nat_bytes (2 ^ 256)) \<le> 32"
    by (simp_all only: length_nat_bytes_le) simp_all
  then have len: "length (Int_Bytes (2 ^ 256)) = 33"
    by (simp add: Int_Bytes_def)
  have "(2 :: int) ^ 256 \<le> 2 ^ 256"
    and "LastInitializedRound ?c () = ((Some (2 ^ 256), None), ())"
    and "BlockHashForRound ?c (Some (2 ^ 256)) () = ((emptyBlkHash, None), ())"
    by (simp_all add: fixedRoundsManager_def)
  from Create_oversized_round [OF this, of ?c "()"] len show ?thesis
    by auto
qed

end
